theory Spec2Isabelle
  imports Complex_Main "HOL-Library.Word" "HOL-Library.AList"
begin

unbundle bit_operations_syntax

text \<open>
  A shallow embedding of \<open>dist/ConfigBits.js\<close>: the classes \<open>BitMap\<close> and \<open>ConfigBits\<close>
  with the constructors and the methods \<open>toObject\<close>, \<open>toMap\<close> and \<open>fromObject\<close>. Each
  constructor and method is a function that returns either the error it throws or its
  result; each loop is a recursive function over the remaining BitMaps that carries the
  loop variables. The parts of JavaScript that the code relies on (numbers and their
  conversion to 32 bits, property reads and writes on plain objects, \<open>x?.constructor\<close>)
  are modelled first.
\<close>

section \<open>JavaScript values used by ConfigBits.js\<close>

text \<open>
  A JavaScript number is an IEEE double. The code only compares numbers, truncates them
  (\<open>ToInt32\<close>, \<open>ToUint16\<close>) and adds small non-negative integers, all of which are exact
  on the mathematical value of the double, so a finite number is modelled by its rational
  value. \<open>-0\<close> is identified with \<open>0\<close>: every operation of the code treats them alike.
\<close>

datatype jsnum = Fin rat | NaN | PosInf | NegInf

text \<open>The relational operator \<open>a < b\<close> on numbers (\<open>a > b\<close> is \<open>js_less b a\<close>).\<close>

fun js_less :: "jsnum \<Rightarrow> jsnum \<Rightarrow> bool" where
  "js_less NaN _ = False"
| "js_less _ NaN = False"
| "js_less (Fin a) (Fin b) = (a < b)"
| "js_less (Fin _) PosInf = True"
| "js_less (Fin _) NegInf = False"
| "js_less PosInf _ = False"
| "js_less NegInf NegInf = False"
| "js_less NegInf _ = True"

text \<open>Truncation towards zero, the integral part taken by \<open>ToInt32\<close> and \<open>ToUint16\<close>.\<close>

definition trunc :: "rat \<Rightarrow> int" where
  "trunc r = (if r < 0 then - \<lfloor>- r\<rfloor> else \<lfloor>r\<rfloor>)"

definition ToInt32 :: "jsnum \<Rightarrow> 32 word" where
  "ToInt32 n = (case n of Fin r \<Rightarrow> word_of_int (trunc r) | _ \<Rightarrow> 0)"

definition ToUint16 :: "jsnum \<Rightarrow> nat" where
  "ToUint16 n = (case n of Fin r \<Rightarrow> nat (trunc r mod 65536) | _ \<Rightarrow> 0)"

text \<open>The number that a bitwise operator returns: the signed reading of its 32 bits.\<close>

definition Int32_number :: "32 word \<Rightarrow> jsnum" where
  "Int32_number w = Fin (of_int (sint w))"

text \<open>
  \<open>2 ** bits - 1\<close> for a non-negative integer \<open>bits\<close>, in double arithmetic: exact up
  to 53 bits, rounded to \<open>2 ** bits\<close> beyond, and \<open>Infinity\<close> from \<open>2 ** 1024\<close> on.
\<close>

definition pow2_minus_1 :: "nat \<Rightarrow> jsnum" where
  "pow2_minus_1 b =
     (if b \<le> 53 then Fin (2 ^ b - 1) else if b \<le> 1023 then Fin (2 ^ b) else PosInf)"

text \<open>
  Values stored in the objects and Maps that the code reads and writes: the declaration
  file types them \<open>{[key: string]: number | boolean}\<close> and \<open>Map<string, number | boolean>\<close>.
\<close>

datatype propval = PBool bool | PNum jsnum

text \<open>Constructor functions, compared by identity in the code.\<close>

datatype ctor = String_ctor | Number_ctor | Boolean_ctor | Object_ctor | Function_ctor | BitMap_ctor

text \<open>
  class BitMap: \<open>#name\<close>, \<open>#bits\<close> and \<open>#dataType\<close>. \<open>#bits\<close> holds the one-character
  string \<open>String.fromCharCode(bits)\<close> and the getter returns \<open>charCodeAt(0)\<close>, so the
  field is modelled by that UTF-16 code unit.
\<close>

record BitMap =
  name :: string
  bits :: nat
  dataType :: ctor

text \<open>
  A plain object (prototype \<open>Object.prototype\<close>) is the list of its own properties in
  the order \<open>OrdinaryOwnPropertyKeys\<close> enumerates them; a Map is the list of its entries
  in insertion order.
\<close>

type_synonym jsobject = "(string \<times> propval) list"
type_synonym jsmap = "(string \<times> propval) list"

text \<open>
  The values that are passed to the constructors and methods: the primitives, the
  constructor functions, plain objects holding numbers and booleans, and BitMap instances.
\<close>

datatype jsval =
    JUndefined
  | JNull
  | JBool bool
  | JNum jsnum
  | JStr string
  | JFunction ctor
  | JObject jsobject
  | JBitMap BitMap

subsection \<open>Property access on plain objects\<close>

text \<open>
  The result of \<open>object[key]\<close>: an own property, a property inherited from
  \<open>Object.prototype\<close> (a function, or the prototype itself for \<open>__proto__\<close>), or
  \<open>undefined\<close>.
\<close>

datatype lookup = Own propval | Inherited string | Missing

definition Object_prototype_keys :: "string list" where
  "Object_prototype_keys =
     [''constructor'', ''__defineGetter__'', ''__defineSetter__'', ''hasOwnProperty'',
      ''__lookupGetter__'', ''__lookupSetter__'', ''isPrototypeOf'',
      ''propertyIsEnumerable'', ''toString'', ''valueOf'', ''__proto__'',
      ''toLocaleString'']"

definition obj_get :: "jsobject \<Rightarrow> string \<Rightarrow> lookup" where
  "obj_get ps k =
     (case map_of ps k of
        Some v \<Rightarrow> Own v
      | None \<Rightarrow> if k \<in> set Object_prototype_keys then Inherited k else Missing)"

text \<open>
  An array index is a canonical decimal string of an integer below \<open>2^32 - 1\<close>; own
  properties with such keys are enumerated first, in ascending numeric order.
\<close>

definition is_digit :: "char \<Rightarrow> bool" where
  "is_digit c = (48 \<le> (of_char c :: int) \<and> (of_char c :: int) \<le> 57)"

definition dec_val :: "string \<Rightarrow> int" where
  "dec_val s = foldl (\<lambda>a c. 10 * a + (of_char c - 48)) 0 s"

definition is_array_index :: "string \<Rightarrow> bool" where
  "is_array_index s =
     (s \<noteq> [] \<and> list_all is_digit s \<and> (if hd s = CHR ''0'' then s = ''0'' else True) \<and>
      dec_val s < 4294967295)"

fun insert_index :: "string \<Rightarrow> propval \<Rightarrow> jsobject \<Rightarrow> jsobject" where
  "insert_index k v [] = [(k, v)]"
| "insert_index k v (p # ps) =
     (if is_array_index (fst p) \<and> dec_val (fst p) < dec_val k
      then p # insert_index k v ps else (k, v) # p # ps)"

text \<open>
  \<open>object[k] = v\<close> for a number or boolean \<open>v\<close>: an existing own property keeps its
  place; the inherited setter of \<open>__proto__\<close> ignores a primitive and creates nothing;
  a new array index is placed among the indices, any other new key at the end.
\<close>

definition obj_set :: "string \<Rightarrow> propval \<Rightarrow> jsobject \<Rightarrow> jsobject" where
  "obj_set k v ps =
     (if k \<in> fst ` set ps then AList.update k v ps
      else if k = ''__proto__'' then ps
      else if is_array_index k then insert_index k v ps
      else ps @ [(k, v)])"

text \<open>\<open>map.set(k, v)\<close>: an existing key keeps its place, a new one goes last.\<close>

definition map_set :: "string \<Rightarrow> propval \<Rightarrow> jsmap \<Rightarrow> jsmap" where
  "map_set k v m = AList.update k v m"

text \<open>\<open>x?.constructor\<close>.\<close>

fun constructor_of :: "jsval \<Rightarrow> jsval" where
  "constructor_of JUndefined = JUndefined"
| "constructor_of JNull = JUndefined"
| "constructor_of (JBool _) = JFunction Boolean_ctor"
| "constructor_of (JNum _) = JFunction Number_ctor"
| "constructor_of (JStr _) = JFunction String_ctor"
| "constructor_of (JFunction _) = JFunction Function_ctor"
| "constructor_of (JBitMap _) = JFunction BitMap_ctor"
| "constructor_of (JObject ps) =
     (case obj_get ps ''constructor'' of
        Own (PBool b) \<Rightarrow> JBool b
      | Own (PNum n) \<Rightarrow> JNum n
      | Inherited _ \<Rightarrow> JFunction Object_ctor
      | Missing \<Rightarrow> JUndefined)"

text \<open>Truthiness, \<open>v || 0\<close> and unary \<open>+\<close> on the result of a property read.\<close>

fun truthy :: "lookup \<Rightarrow> bool" where
  "truthy (Own (PBool b)) = b"
| "truthy (Own (PNum n)) = (n \<noteq> Fin 0 \<and> n \<noteq> NaN)"
| "truthy (Inherited _) = True"
| "truthy Missing = False"

definition or_zero :: "lookup \<Rightarrow> lookup" where
  "or_zero v = (if truthy v then v else Own (PNum (Fin 0)))"

fun ToNumber :: "lookup \<Rightarrow> jsnum" where
  "ToNumber (Own (PBool b)) = Fin (if b then 1 else 0)"
| "ToNumber (Own (PNum n)) = n"
| "ToNumber (Inherited _) = NaN"
| "ToNumber Missing = NaN"

section \<open>The classes of ConfigBits.js\<close>

text \<open>
  The four error classes thrown by the code. The specification calls them
  InvalidArgument (\<open>ArgumentError\<close>), TypeMismatch (\<open>TypeError\<close>), RangeError and
  KindMismatch (\<open>TypeMismatchError\<close>).
\<close>

datatype error = ArgumentError | TypeError | RangeError | TypeMismatchError

subsection \<open>new BitMap(name, bits, dataType = Number)\<close>

definition BitMap_new :: "jsval \<Rightarrow> jsval \<Rightarrow> jsval \<Rightarrow> error + BitMap" where
  "BitMap_new nameArg bitsArg dataTypeArg =
     (let dataTypeArg = (if dataTypeArg = JUndefined then JFunction Number_ctor else dataTypeArg) in
      if constructor_of nameArg \<noteq> JFunction String_ctor then Inl TypeError
      else if constructor_of bitsArg \<noteq> JFunction Number_ctor then Inl TypeError
      else case (nameArg, bitsArg) of
        (JStr s, JNum b) \<Rightarrow>
          if js_less (Fin 32) b then Inl RangeError
          else if dataTypeArg \<noteq> JFunction Number_ctor \<and> dataTypeArg \<noteq> JFunction Boolean_ctor
            then Inl TypeError
          else if dataTypeArg = JFunction Boolean_ctor \<and> b \<noteq> Fin 1 then Inl TypeMismatchError
          else Inr \<lparr>name = s, bits = ToUint16 b,
                    dataType = (if dataTypeArg = JFunction Boolean_ctor then Boolean_ctor else Number_ctor)\<rparr>
      | _ \<Rightarrow> Inl TypeError)"

subsection \<open>new ConfigBits(...bitMaps)\<close>

record ConfigBits =
  bitMap :: "BitMap list"

fun ConfigBits_loop :: "jsval list \<Rightarrow> nat \<Rightarrow> BitMap list \<Rightarrow> error + BitMap list" where
  "ConfigBits_loop [] totalBits acc = Inr acc"
| "ConfigBits_loop (x # rest) totalBits acc =
     (if constructor_of x \<noteq> JFunction BitMap_ctor then Inl TypeError
      else case x of
        JBitMap b \<Rightarrow>
          if totalBits + bits b > 32 then Inl RangeError
          else ConfigBits_loop rest (totalBits + bits b) (acc @ [b])
      | _ \<Rightarrow> Inl TypeError)"

definition ConfigBits_new :: "jsval list \<Rightarrow> error + ConfigBits" where
  "ConfigBits_new bitMaps =
     (if length bitMaps = 0 then Inl ArgumentError
      else case ConfigBits_loop bitMaps 0 [] of
        Inl e \<Rightarrow> Inl e
      | Inr bs \<Rightarrow> Inr \<lparr>bitMap = bs\<rparr>)"

text \<open>
  The error objects that the constructor throws, with their messages. The message of the
  \<open>TypeError\<close> interpolates \<open>bitMap?.constructor.name\<close>; the other two are constant
  texts. \<open>ConfigBits_loop_thrown\<close> is the loop again, returning what it throws.
\<close>

definition ctor_name :: "ctor \<Rightarrow> string" where
  "ctor_name c = (case c of String_ctor \<Rightarrow> ''String'' | Number_ctor \<Rightarrow> ''Number''
     | Boolean_ctor \<Rightarrow> ''Boolean'' | Object_ctor \<Rightarrow> ''Object'' | Function_ctor \<Rightarrow> ''Function''
     | BitMap_ctor \<Rightarrow> ''BitMap'')"

definition constructor_name :: "jsval \<Rightarrow> string" where
  "constructor_name x =
     (case constructor_of x of JFunction c \<Rightarrow> ctor_name c | _ \<Rightarrow> ''undefined'')"

type_synonym thrown = "error \<times> string"

definition RangeError_total_bits :: thrown where
  "RangeError_total_bits =
     (RangeError, ''The total number of bits in all bit maps cannot exceed 32.'')"

definition TypeError_not_a_BitMap :: "jsval \<Rightarrow> thrown" where
  "TypeError_not_a_BitMap x =
     (TypeError, ''Expected a '' @ [CHR 0x27] @ ''BitMap'' @ [CHR 0x27] @
        '' instance, but received '' @ constructor_name x @ '' instead.'')"

fun ConfigBits_loop_thrown :: "jsval list \<Rightarrow> nat \<Rightarrow> thrown option" where
  "ConfigBits_loop_thrown [] totalBits = None"
| "ConfigBits_loop_thrown (x # rest) totalBits =
     (if constructor_of x \<noteq> JFunction BitMap_ctor then Some (TypeError_not_a_BitMap x)
      else case x of
        JBitMap b \<Rightarrow>
          if totalBits + bits b > 32 then Some RangeError_total_bits
          else ConfigBits_loop_thrown rest (totalBits + bits b)
      | _ \<Rightarrow> Some (TypeError_not_a_BitMap x))"

definition ConfigBits_new_thrown :: "jsval list \<Rightarrow> thrown option" where
  "ConfigBits_new_thrown bitMaps =
     (if length bitMaps = 0 then Some (ArgumentError, ''At least one bit map must be provided.'')
      else ConfigBits_loop_thrown bitMaps 0)"

subsection \<open>toObject and toMap\<close>

text \<open>\<open>(integer >> position) & (2 ** bitMap.bits - 1)\<close>; the shift count is taken modulo 32.\<close>

definition field_value :: "jsnum \<Rightarrow> nat \<Rightarrow> nat \<Rightarrow> 32 word" where
  "field_value integer position b =
     signed_drop_bit (position mod 32) (ToInt32 integer) AND ToInt32 (pow2_minus_1 b)"

text \<open>\<open>bitMap.dataType === Boolean ? !!value : value\<close>\<close>

definition typed_value :: "ctor \<Rightarrow> 32 word \<Rightarrow> propval" where
  "typed_value t v = (if t = Boolean_ctor then PBool (v \<noteq> 0) else PNum (Int32_number v))"

fun toObject_loop :: "BitMap list \<Rightarrow> jsnum \<Rightarrow> nat \<Rightarrow> jsobject \<Rightarrow> jsobject" where
  "toObject_loop [] integer position result = result"
| "toObject_loop (b # rest) integer position result =
     toObject_loop rest integer (position + bits b)
       (obj_set (name b) (typed_value (dataType b) (field_value integer position (bits b))) result)"

definition toObject :: "ConfigBits \<Rightarrow> jsval \<Rightarrow> error + jsobject" where
  "toObject this integer =
     (if constructor_of integer \<noteq> JFunction Number_ctor then Inl TypeError
      else case integer of
        JNum n \<Rightarrow>
          if js_less (Fin 4294967295) n \<or> js_less n (Fin (- 2147483648)) then Inl RangeError
          else Inr (toObject_loop (bitMap this) n 0 [])
      | _ \<Rightarrow> Inl TypeError)"

fun toMap_loop :: "BitMap list \<Rightarrow> jsnum \<Rightarrow> nat \<Rightarrow> jsmap \<Rightarrow> jsmap" where
  "toMap_loop [] integer position result = result"
| "toMap_loop (b # rest) integer position result =
     toMap_loop rest integer (position + bits b)
       (map_set (name b) (typed_value (dataType b) (field_value integer position (bits b))) result)"

definition toMap :: "ConfigBits \<Rightarrow> jsval \<Rightarrow> error + jsmap" where
  "toMap this integer =
     (if constructor_of integer \<noteq> JFunction Number_ctor then Inl TypeError
      else case integer of
        JNum n \<Rightarrow>
          if js_less (Fin 4294967295) n \<or> js_less n (Fin (- 2147483648)) then Inl RangeError
          else Inr (toMap_loop (bitMap this) n 0 [])
      | _ \<Rightarrow> Inl TypeError)"

subsection \<open>fromObject\<close>

text \<open>
  \<open>result |= (+value << position)\<close> keeps \<open>result\<close> an Int32, held here as its 32 bits;
  the shift count is taken modulo 32.
\<close>

fun fromObject_loop :: "BitMap list \<Rightarrow> jsobject \<Rightarrow> nat \<Rightarrow> 32 word \<Rightarrow> 32 word" where
  "fromObject_loop [] object position result = result"
| "fromObject_loop (b # rest) object position result =
     (let v = or_zero (obj_get object (name b)) in
      fromObject_loop rest object (position + bits b)
        (result OR push_bit (position mod 32) (ToInt32 (ToNumber v))))"

definition fromObject :: "ConfigBits \<Rightarrow> jsval \<Rightarrow> error + jsnum" where
  "fromObject this object =
     (if constructor_of object \<noteq> JFunction Object_ctor then Inl TypeError
      else case object of
        JObject ps \<Rightarrow> Inr (Int32_number (fromObject_loop (bitMap this) ps 0 0))
      | _ \<Rightarrow> Inl TypeError)"

subsection \<open>The example of the README\<close>

definition AUTO_SAVE :: BitMap where
  "AUTO_SAVE = \<lparr>name = ''auto_save'', bits = 1, dataType = Boolean_ctor\<rparr>"

definition INDENT_TYPE :: BitMap where
  "INDENT_TYPE = \<lparr>name = ''indent_type'', bits = 1, dataType = Number_ctor\<rparr>"

definition INDENT_SIZE :: BitMap where
  "INDENT_SIZE = \<lparr>name = ''indent_size'', bits = 2, dataType = Number_ctor\<rparr>"

definition MY_SETTINGS :: ConfigBits where
  "MY_SETTINGS = \<lparr>bitMap = [AUTO_SAVE, INDENT_TYPE, INDENT_SIZE]\<rparr>"

subsection \<open>Invariants established by the constructors\<close>

text \<open>
  What \<open>new BitMap\<close> guarantees of its result: the stored width is a UTF-16 code unit,
  the data type is \<open>Number\<close> or \<open>Boolean\<close>, and a Boolean BitMap has width 1.
\<close>

definition BitMap_invariant :: "BitMap \<Rightarrow> bool" where
  "BitMap_invariant b =
     (bits b < 65536 \<and>
      (if dataType b = Boolean_ctor then bits b = 1 else dataType b = Number_ctor))"

text \<open>What \<open>new ConfigBits\<close> guarantees: at least one BitMap, and at most 32 bits in all.\<close>

definition ConfigBits_invariant :: "ConfigBits \<Rightarrow> bool" where
  "ConfigBits_invariant this =
     (bitMap this \<noteq> [] \<and> list_all BitMap_invariant (bitMap this) \<and>
      sum_list (map bits (bitMap this)) \<le> 32)"

text \<open>
  The offset of the field at index \<open>i\<close>: the sum of the widths of the fields before it,
  which is the value of \<open>position\<close> when a loop over the BitMaps reaches index \<open>i\<close>.
\<close>

definition offset :: "ConfigBits \<Rightarrow> nat \<Rightarrow> nat" where
  "offset this i = sum_list (map bits (take i (bitMap this)))"

text \<open>
  A property read that is absent, a boolean, or a non-negative integer, and that fits
  into \<open>w\<close> bits when read as a number.
\<close>

fun within_width :: "lookup \<Rightarrow> nat \<Rightarrow> bool" where
  "within_width (Own (PBool b)) w = ((if b then 1 else 0) < (2 :: int) ^ w)"
| "within_width (Own (PNum (Fin r))) w = (r = of_int \<lfloor>r\<rfloor> \<and> 0 \<le> r \<and> r < 2 ^ w)"
| "within_width (Own (PNum _)) w = False"
| "within_width (Inherited _) w = True"
| "within_width Missing w = True"

section \<open>Construction of a BitMap\<close>

lemma BitMap_new_string_number:
  "BitMap_new (JStr s) (JNum b) dt =
     (if js_less (Fin 32) b then Inl RangeError
      else if dt \<noteq> JUndefined \<and> dt \<noteq> JFunction Number_ctor \<and> dt \<noteq> JFunction Boolean_ctor
        then Inl TypeError
      else if dt = JFunction Boolean_ctor \<and> b \<noteq> Fin 1 then Inl TypeMismatchError
      else Inr \<lparr>name = s, bits = ToUint16 b,
                dataType = (if dt = JFunction Boolean_ctor then Boolean_ctor else Number_ctor)\<rparr>)"
  by (simp add: BitMap_new_def Let_def)

lemma ToUint16_examples:
  "ToUint16 (Fin 0) = 0" "ToUint16 (Fin 1) = 1" "ToUint16 (Fin (- 1)) = 65535"
  by (simp_all add: ToUint16_def trunc_def)





text \<open>
  C9, as stated, fails for a width above 32: the range check comes first, so a Boolean
  BitMap of width 33 is rejected with \<open>RangeError\<close>, not with \<open>TypeMismatchError\<close>.
\<close>

theorem C9_boolean_width_33_counterexample:
  "BitMap_new (JStr ''a'') (JNum (Fin 33)) (JFunction Boolean_ctor) = Inl RangeError"
  by (simp add: BitMap_new_string_number)

text \<open>
  C9, amended: with a string name and the kind Boolean, every numeric width that is not
  greater than 32 and differs from 1 (width 2 in particular) fails with
  \<open>TypeMismatchError\<close> (the specification's KindMismatch); a width greater than 32
  fails with \<open>RangeError\<close>; width 1 constructs the BitMap.
\<close>

theorem C9_boolean_width:
  "BitMap_new (JStr s) (JNum b) (JFunction Boolean_ctor) =
     (if js_less (Fin 32) b then Inl RangeError
      else if b \<noteq> Fin 1 then Inl TypeMismatchError
      else Inr \<lparr>name = s, bits = 1, dataType = Boolean_ctor\<rparr>)"
  by (simp add: BitMap_new_string_number ToUint16_examples)

theorem C9_boolean_width_witness:
  "BitMap_new (JStr ''flag'') (JNum (Fin 2)) (JFunction Boolean_ctor) = Inl TypeMismatchError"
  using C9_boolean_width [of "''flag''" "Fin 2"] by simp

section \<open>Construction of a ConfigBits\<close>

lemma ConfigBits_loop_prefix:
  "totalBits + sum_list (map bits bs) \<le> 32 \<Longrightarrow>
   ConfigBits_loop (map JBitMap bs @ rest) totalBits acc =
   ConfigBits_loop rest (totalBits + sum_list (map bits bs)) (acc @ bs)"
  by (induction bs arbitrary: totalBits acc) (simp_all add: add.assoc)

lemma ConfigBits_loop_thrown_kind:
  "map_option fst (ConfigBits_loop_thrown args totalBits) =
     (case ConfigBits_loop args totalBits acc of Inl e \<Rightarrow> Some e | Inr bs \<Rightarrow> None)"
proof (induction args arbitrary: totalBits acc)
  case Nil
  show ?case by simp
next
  case (Cons x args)
  show ?case
    by (cases x)
       (simp_all add: Cons.IH TypeError_not_a_BitMap_def RangeError_total_bits_def
          del: constructor_of.simps(8))
qed

lemma ConfigBits_new_thrown_kind:
  "map_option fst (ConfigBits_new_thrown args) =
     (case ConfigBits_new args of Inl e \<Rightarrow> Some e | Inr this \<Rightarrow> None)"
  using ConfigBits_loop_thrown_kind [of args 0 "[]"]
  by (simp add: ConfigBits_new_thrown_def ConfigBits_new_def split: sum.splits)

lemma ConfigBits_loop_thrown_prefix:
  "totalBits + sum_list (map bits bs) \<le> 32 \<Longrightarrow>
   ConfigBits_loop_thrown (map JBitMap bs @ rest) totalBits =
   ConfigBits_loop_thrown rest (totalBits + sum_list (map bits bs))"
  by (induction bs arbitrary: totalBits) (simp_all add: add.assoc)

text \<open>
  C5, as stated, fails in its attribution clause: the \<open>RangeError\<close> is thrown with a
  constant message and names neither a field nor an index. When the running total first
  exceeds 32 at index 1 (widths 31, 2, 1) and when it first does so at index 2 (widths 16,
  16, 1), the error thrown is the same.
\<close>

theorem C5_error_names_no_field_counterexample:
  "ConfigBits_new_thrown
     [JBitMap \<lparr>name = ''a'', bits = 31, dataType = Number_ctor\<rparr>,
      JBitMap \<lparr>name = ''b'', bits = 2, dataType = Number_ctor\<rparr>,
      JBitMap \<lparr>name = ''c'', bits = 1, dataType = Number_ctor\<rparr>] =
     Some (RangeError, ''The total number of bits in all bit maps cannot exceed 32.'') \<and>
   ConfigBits_new_thrown
     [JBitMap \<lparr>name = ''a'', bits = 16, dataType = Number_ctor\<rparr>,
      JBitMap \<lparr>name = ''b'', bits = 16, dataType = Number_ctor\<rparr>,
      JBitMap \<lparr>name = ''c'', bits = 1, dataType = Number_ctor\<rparr>] =
     Some (RangeError, ''The total number of bits in all bit maps cannot exceed 32.'')"
  by (simp add: ConfigBits_new_thrown_def RangeError_total_bits_def)

text \<open>
  C5, amended: let the arguments be BitMaps \<open>bs\<close> (indices below \<open>k = length bs\<close>), then a
  BitMap \<open>b\<close> at index \<open>k\<close>, then anything (\<open>rest\<close>), where the widths of \<open>bs\<close> sum to at
  most 32 and adding the width of \<open>b\<close> exceeds 32. Then construction fails with
  \<open>RangeError\<close> whatever \<open>rest\<close> holds, also values that are not BitMaps, and the loop
  accepts all of \<open>bs\<close>, so the check first rejects at index \<open>k\<close>. The error thrown
  carries the constant message and does not identify the field.
\<close>

theorem C5_running_total_RangeError:
  assumes "sum_list (map bits bs) \<le> 32" and "sum_list (map bits bs) + bits b > 32"
  shows "ConfigBits_new (map JBitMap bs @ JBitMap b # rest) = Inl RangeError \<and>
         ConfigBits_loop (map JBitMap bs) 0 [] = Inr bs \<and>
         ConfigBits_new_thrown (map JBitMap bs @ JBitMap b # rest) =
           Some (RangeError, ''The total number of bits in all bit maps cannot exceed 32.'')"
proof (intro conjI)
  have "ConfigBits_loop (map JBitMap bs @ JBitMap b # rest) 0 [] = Inl RangeError"
    using assms by (simp add: ConfigBits_loop_prefix)
  then show "ConfigBits_new (map JBitMap bs @ JBitMap b # rest) = Inl RangeError"
    unfolding ConfigBits_new_def by simp
  show "ConfigBits_loop (map JBitMap bs) 0 [] = Inr bs"
    using assms(1) ConfigBits_loop_prefix [of 0 bs "[]" "[]"] by simp
  have "ConfigBits_loop_thrown (map JBitMap bs @ JBitMap b # rest) 0 = Some RangeError_total_bits"
    using assms by (simp add: ConfigBits_loop_thrown_prefix)
  then show "ConfigBits_new_thrown (map JBitMap bs @ JBitMap b # rest) =
           Some (RangeError, ''The total number of bits in all bit maps cannot exceed 32.'')"
    unfolding ConfigBits_new_thrown_def RangeError_total_bits_def by simp
qed

theorem C5_running_total_RangeError_witness:
  "ConfigBits_new
     [JBitMap \<lparr>name = ''a'', bits = 31, dataType = Number_ctor\<rparr>,
      JBitMap \<lparr>name = ''b'', bits = 2, dataType = Number_ctor\<rparr>,
      JStr ''not a BitMap''] = Inl RangeError \<and>
   ConfigBits_loop [JBitMap \<lparr>name = ''a'', bits = 31, dataType = Number_ctor\<rparr>] 0 [] =
     Inr [\<lparr>name = ''a'', bits = 31, dataType = Number_ctor\<rparr>] \<and>
   ConfigBits_new_thrown
     [JBitMap \<lparr>name = ''a'', bits = 31, dataType = Number_ctor\<rparr>,
      JBitMap \<lparr>name = ''b'', bits = 2, dataType = Number_ctor\<rparr>,
      JStr ''not a BitMap''] =
     Some (RangeError, ''The total number of bits in all bit maps cannot exceed 32.'')"
  using C5_running_total_RangeError
    [of "[\<lparr>name = ''a'', bits = 31, dataType = Number_ctor\<rparr>]"
        "\<lparr>name = ''b'', bits = 2, dataType = Number_ctor\<rparr>" "[JStr ''not a BitMap'']"]
  by simp

section \<open>Decoding: toObject and toMap\<close>

lemma constructor_Number: "constructor_of x = JFunction Number_ctor \<longleftrightarrow> (\<exists>n. x = JNum n)"
  by (cases x) (auto simp: obj_get_def split: option.splits propval.splits)

text \<open>
  C3, as stated, fails: the numbers 1.5 and \<open>NaN\<close> are not integral, yet \<open>toObject\<close>
  accepts them (1.5 is read as 1 and \<open>NaN\<close> as 0).
\<close>

theorem C3_non_integral_accepted_counterexample:
  "toObject \<lparr>bitMap = [\<lparr>name = ''a'', bits = 2, dataType = Number_ctor\<rparr>]\<rparr> (JNum (Fin (3 / 2))) =
     Inr [(''a'', PNum (Fin 1))] \<and>
   toObject \<lparr>bitMap = [\<lparr>name = ''a'', bits = 2, dataType = Number_ctor\<rparr>]\<rparr> (JNum NaN) =
     Inr [(''a'', PNum (Fin 0))]"
  by code_simp

text \<open>
  C3, amended: \<open>toObject\<close> fails with \<open>TypeError\<close> (the specification's TypeMismatch)
  exactly when the constructor of its input is not \<open>Number\<close>; it fails with \<open>RangeError\<close>
  for every number greater than \<open>2^32 - 1\<close> or less than \<open>-2^31\<close>; and it succeeds for
  every integer from \<open>-2^31\<close> to \<open>2^32 - 1\<close>.
\<close>

theorem C3_toObject_input_domain:
  "(toObject this x = Inl TypeError \<longleftrightarrow> constructor_of x \<noteq> JFunction Number_ctor) \<and>
   (js_less (Fin 4294967295) n \<or> js_less n (Fin (- 2147483648))
      \<longrightarrow> toObject this (JNum n) = Inl RangeError) \<and>
   (- 2147483648 \<le> v \<and> v \<le> 4294967295
      \<longrightarrow> (\<exists>obj. toObject this (JNum (Fin (of_int v))) = Inr obj))"
proof (intro conjI impI)
  show "toObject this x = Inl TypeError \<longleftrightarrow> constructor_of x \<noteq> JFunction Number_ctor"
    by (cases "constructor_of x = JFunction Number_ctor")
       (auto simp: toObject_def constructor_Number split: if_splits)
next
  assume "js_less (Fin 4294967295) n \<or> js_less n (Fin (- 2147483648))"
  then show "toObject this (JNum n) = Inl RangeError"
    by (auto simp: toObject_def)
next
  assume "- 2147483648 \<le> v \<and> v \<le> 4294967295"
  then show "\<exists>obj. toObject this (JNum (Fin (of_int v))) = Inr obj"
    by (simp add: toObject_def)
qed

theorem C3_toObject_input_domain_witness:
  "toObject MY_SETTINGS (JStr ''13'') = Inl TypeError \<and>
   toObject MY_SETTINGS (JNum (Fin 4294967296)) = Inl RangeError \<and>
   (\<exists>obj. toObject MY_SETTINGS (JNum (Fin (- 2147483648))) = Inr obj)"
  using C3_toObject_input_domain [of MY_SETTINGS "JStr ''13''" "Fin 4294967296" "- 2147483648"]
  by simp

section \<open>The concrete scenario\<close>

text \<open>
  C6: the three BitMaps \<open>auto_save\<close> (1 bit, Boolean), \<open>indent_type\<close> (1 bit) and
  \<open>indent_size\<close> (2 bits) are constructed and assembled in that order; encoding
  \<open>{auto_save: true, indent_type: 0, indent_size: 3}\<close> returns 13 and decoding 13 returns
  exactly that object.
\<close>

theorem C6_concrete_scenario:
  "BitMap_new (JStr ''auto_save'') (JNum (Fin 1)) (JFunction Boolean_ctor) = Inr AUTO_SAVE \<and>
   BitMap_new (JStr ''indent_type'') (JNum (Fin 1)) JUndefined = Inr INDENT_TYPE \<and>
   BitMap_new (JStr ''indent_size'') (JNum (Fin 2)) JUndefined = Inr INDENT_SIZE \<and>
   ConfigBits_new [JBitMap AUTO_SAVE, JBitMap INDENT_TYPE, JBitMap INDENT_SIZE] = Inr MY_SETTINGS \<and>
   fromObject MY_SETTINGS
     (JObject [(''auto_save'', PBool True), (''indent_type'', PNum (Fin 0)),
               (''indent_size'', PNum (Fin 3))]) = Inr (Fin 13) \<and>
   toObject MY_SETTINGS (JNum (Fin 13)) =
     Inr [(''auto_save'', PBool True), (''indent_type'', PNum (Fin 0)),
          (''indent_size'', PNum (Fin 3))]"
  by code_simp

section \<open>Numbers and their 32 bits\<close>

lemma trunc_of_int: "trunc (of_int i) = i"
proof -
  have "\<lfloor>- (of_int i :: rat)\<rfloor> = - i"
    by (metis floor_of_int of_int_minus)
  then show ?thesis by (simp add: trunc_def)
qed

lemma ToInt32_of_int: "ToInt32 (Fin (of_int i)) = word_of_int i"
  by (simp add: ToInt32_def trunc_of_int)

lemma ToInt32_Int32_number: "ToInt32 (Int32_number w) = w"
  unfolding Int32_number_def by (simp only: ToInt32_of_int) simp

lemma ToInt32_NaN: "ToInt32 NaN = 0"
  by (simp add: ToInt32_def)

lemma ToInt32_zero: "ToInt32 (Fin 0) = 0"
  by (simp add: ToInt32_def trunc_def)

lemma ToInt32_pow2_minus_1: "b \<le> 32 \<Longrightarrow> ToInt32 (pow2_minus_1 b) = mask b"
proof -
  assume "b \<le> 32"
  have "(2 ^ b - 1 :: rat) = of_int (2 ^ b - 1)" by simp
  then have "ToInt32 (Fin (2 ^ b - 1)) = word_of_int (2 ^ b - 1)"
    by (simp only: ToInt32_of_int)
  also have "\<dots> = mask b" by (simp add: mask_eq_exp_minus_1)
  finally show ?thesis using \<open>b \<le> 32\<close> by (simp add: pow2_minus_1_def)
qed

text \<open>A field that lies within the 32 bits is the slice of the input's bit pattern.\<close>

lemma bit_field_value:
  assumes "p + b \<le> 32"
  shows "bit (field_value n p b) k \<longleftrightarrow> k < b \<and> bit (ToInt32 n) (p + k)"
proof (cases "p = 32")
  case True
  with assms have "b = 0" by simp
  then show ?thesis by (simp add: field_value_def ToInt32_pow2_minus_1)
next
  case False
  with assms have "p < 32" "b \<le> 32" by simp_all
  then show ?thesis using assms
    by (auto simp: field_value_def ToInt32_pow2_minus_1 bit_and_iff bit_mask_iff
        bit_signed_drop_bit_iff dest: bit_imp_le_length)
qed

text \<open>Reading back what \<open>toObject\<close> stored gives the 32 bits that were stored.\<close>

lemma typed_value_back:
  assumes "t = Boolean_ctor \<Longrightarrow> v = 0 \<or> v = 1"
  shows "ToInt32 (ToNumber (or_zero (Own (typed_value t v)))) = v"
proof (cases "t = Boolean_ctor")
  case True
  with assms have "v = 0 \<or> v = 1" by simp
  then show ?thesis using True
    by (auto simp: typed_value_def or_zero_def ToInt32_def trunc_def)
next
  case False
  show ?thesis
  proof (cases "v = 0")
    case True
    then show ?thesis using False
      by (simp add: typed_value_def or_zero_def Int32_number_def ToInt32_def trunc_def)
  next
    case nz: False
    then show ?thesis using False
      by (simp add: typed_value_def or_zero_def ToInt32_Int32_number)
         (simp add: Int32_number_def signed_eq_0_iff)
  qed
qed

section \<open>Encoding: fromObject\<close>

lemma absent_contributes_zero:
  "map_of ps k = None \<Longrightarrow> ToInt32 (ToNumber (or_zero (obj_get ps k))) = 0"
  by (simp add: obj_get_def or_zero_def ToInt32_NaN ToInt32_zero)

lemma fromObject_loop_empty: "fromObject_loop fs [] position result = result"
  by (induction fs arbitrary: position result)
     (simp_all add: absent_contributes_zero Let_def)

lemma constructor_of_JObject:
  "constructor_of (JObject ps) = JFunction Object_ctor \<longleftrightarrow> map_of ps ''constructor'' = None"
proof (cases "map_of ps ''constructor''")
  case None
  then show ?thesis by (simp add: obj_get_def Object_prototype_keys_def)
next
  case (Some v)
  then show ?thesis by (cases v) (simp_all add: obj_get_def)
qed

lemma fromObject_JObject:
  "fromObject this (JObject ps) =
     (if map_of ps ''constructor'' = None
      then Inr (Int32_number (fromObject_loop (bitMap this) ps 0 0)) else Inl TypeError)"
  by (simp add: fromObject_def constructor_of_JObject del: constructor_of.simps)

lemma obj_get_append_zero:
  "map_of ps k = None \<Longrightarrow>
   ToInt32 (ToNumber (or_zero (obj_get (ps @ [(k, PNum (Fin 0))]) k'))) =
   ToInt32 (ToNumber (or_zero (obj_get ps k')))"
  by (cases "k' = k")
     (auto simp: obj_get_def or_zero_def ToInt32_NaN ToInt32_zero map_add_def split: option.splits)

lemma fromObject_loop_append_zero:
  "map_of ps k = None \<Longrightarrow>
   fromObject_loop fs (ps @ [(k, PNum (Fin 0))]) position result =
   fromObject_loop fs ps position result"
  by (induction fs arbitrary: position result)
     (simp_all add: Let_def obj_get_append_zero)

text \<open>
  C10: encoding the empty object gives 0 on every schema. In the iteration for a BitMap
  whose name is not an own property of the object, \<open>result\<close> is left as it is and only
  \<open>position\<close> advances (an inherited property such as \<open>toString\<close> reads as \<open>NaN\<close>, which
  shifts to 0 as well). Consequently an absent name and the same name holding 0 encode
  alike; the name \<open>constructor\<close> is left out of that comparison, because an object with
  an own \<open>constructor\<close> property is rejected by the check of its constructor.
\<close>

theorem C10_absent_fields_are_zero:
  "fromObject this (JObject []) = Inr (Fin 0) \<and>
   (map_of ps (name b) = None \<longrightarrow>
      fromObject_loop (b # rest) ps position result =
      fromObject_loop rest ps (position + bits b) result) \<and>
   (map_of ps k = None \<and> k \<noteq> ''constructor'' \<longrightarrow>
      fromObject this (JObject (ps @ [(k, PNum (Fin 0))])) = fromObject this (JObject ps))"
proof (intro conjI impI)
  show "fromObject this (JObject []) = Inr (Fin 0)"
    by (simp add: fromObject_JObject fromObject_loop_empty Int32_number_def)
next
  assume "map_of ps (name b) = None"
  then show "fromObject_loop (b # rest) ps position result =
      fromObject_loop rest ps (position + bits b) result"
    by (simp add: Let_def absent_contributes_zero)
next
  assume "map_of ps k = None \<and> k \<noteq> ''constructor''"
  then show "fromObject this (JObject (ps @ [(k, PNum (Fin 0))])) = fromObject this (JObject ps)"
    by (auto simp: fromObject_JObject fromObject_loop_append_zero map_add_def split: option.splits)
qed

theorem C10_absent_fields_are_zero_witness:
  "fromObject MY_SETTINGS (JObject []) = Inr (Fin 0) \<and>
   fromObject_loop [AUTO_SAVE, INDENT_TYPE, INDENT_SIZE] [(''indent_size'', PNum (Fin 3))] 0 0 =
   fromObject_loop [INDENT_TYPE, INDENT_SIZE] [(''indent_size'', PNum (Fin 3))] (0 + bits AUTO_SAVE) 0 \<and>
   fromObject MY_SETTINGS (JObject ([(''indent_size'', PNum (Fin 3))] @ [(''auto_save'', PNum (Fin 0))])) =
   fromObject MY_SETTINGS (JObject [(''indent_size'', PNum (Fin 3))])"
  using C10_absent_fields_are_zero
    [of MY_SETTINGS "[(''indent_size'', PNum (Fin 3))]" AUTO_SAVE "[INDENT_TYPE, INDENT_SIZE]" 0 0
        "''auto_save''"]
  by (simp add: AUTO_SAVE_def)

section \<open>toMap against toObject\<close>

lemma update_absent: "k \<notin> fst ` set ps \<Longrightarrow> AList.update k v ps = ps @ [(k, v)]"
  by (induction ps) auto

lemma obj_set_eq_map_set:
  "k \<noteq> ''__proto__'' \<Longrightarrow> \<not> is_array_index k \<Longrightarrow> obj_set k v ps = map_set k v ps"
  by (simp add: obj_set_def map_set_def update_absent)

lemma toObject_loop_eq_toMap_loop:
  "list_all (\<lambda>f. name f \<noteq> ''__proto__'' \<and> \<not> is_array_index (name f)) fs \<Longrightarrow>
   toObject_loop fs n position acc = toMap_loop fs n position acc"
  by (induction fs arbitrary: position acc) (simp_all add: obj_set_eq_map_set)

text \<open>
  C8, as stated, fails on the order and on the entries. With the BitMaps \<open>b\<close> and \<open>0\<close>
  the object enumerates the array index \<open>0\<close> first, the Map keeps the insertion order;
  with a BitMap named \<open>__proto__\<close> the assignment to the object is swallowed by the
  inherited setter, so the object has no entry where the Map has one.
\<close>

theorem C8_order_and_proto_counterexample:
  "toObject \<lparr>bitMap = [\<lparr>name = ''b'', bits = 1, dataType = Number_ctor\<rparr>,
                       \<lparr>name = ''0'', bits = 1, dataType = Number_ctor\<rparr>]\<rparr> (JNum (Fin 1)) =
     Inr [(''0'', PNum (Fin 0)), (''b'', PNum (Fin 1))] \<and>
   toMap \<lparr>bitMap = [\<lparr>name = ''b'', bits = 1, dataType = Number_ctor\<rparr>,
                    \<lparr>name = ''0'', bits = 1, dataType = Number_ctor\<rparr>]\<rparr> (JNum (Fin 1)) =
     Inr [(''b'', PNum (Fin 1)), (''0'', PNum (Fin 0))] \<and>
   toObject \<lparr>bitMap = [\<lparr>name = ''__proto__'', bits = 1, dataType = Number_ctor\<rparr>]\<rparr> (JNum (Fin 1)) =
     Inr [] \<and>
   toMap \<lparr>bitMap = [\<lparr>name = ''__proto__'', bits = 1, dataType = Number_ctor\<rparr>]\<rparr> (JNum (Fin 1)) =
     Inr [(''__proto__'', PNum (Fin 1))]"
  by code_simp

text \<open>
  C8, amended: \<open>toMap\<close> and \<open>toObject\<close> fail on the same inputs with the same error,
  whatever the schema; and when no BitMap is named \<open>__proto__\<close> or by an array index,
  they return the same (name, value) pairs in the same order.
\<close>

theorem C8_toMap_equals_toObject:
  "(toObject this x = Inl e \<longleftrightarrow> toMap this x = Inl e) \<and>
   (list_all (\<lambda>f. name f \<noteq> ''__proto__'' \<and> \<not> is_array_index (name f)) (bitMap this)
      \<longrightarrow> toObject this x = toMap this x)"
  by (auto simp: toObject_def toMap_def toObject_loop_eq_toMap_loop split: jsval.splits)

theorem C8_toMap_equals_toObject_witness:
  "toObject MY_SETTINGS (JNum (Fin 13)) = toMap MY_SETTINGS (JNum (Fin 13)) \<and>
   toMap MY_SETTINGS (JNum PosInf) = Inl RangeError"
proof
  have names: "list_all (\<lambda>f. name f \<noteq> ''__proto__'' \<and> \<not> is_array_index (name f))
                 (bitMap MY_SETTINGS)"
    by (simp add: MY_SETTINGS_def AUTO_SAVE_def INDENT_TYPE_def INDENT_SIZE_def
        is_array_index_def is_digit_def)
  with C8_toMap_equals_toObject [of MY_SETTINGS "JNum (Fin 13)"]
  show "toObject MY_SETTINGS (JNum (Fin 13)) = toMap MY_SETTINGS (JNum (Fin 13))"
    by blast
  have "toObject MY_SETTINGS (JNum PosInf) = Inl RangeError"
    by (simp add: toObject_def)
  with C8_toMap_equals_toObject [of MY_SETTINGS "JNum PosInf" RangeError]
  show "toMap MY_SETTINGS (JNum PosInf) = Inl RangeError"
    by blast
qed

section \<open>What toObject stores for a field\<close>

lemma map_of_insert_index:
  "k \<notin> fst ` set ps \<Longrightarrow>
   map_of (insert_index k v ps) k' = (if k' = k then Some v else map_of ps k')"
  by (induction ps) auto

lemma map_of_append_new:
  "k \<notin> fst ` set ps \<Longrightarrow>
   map_of (ps @ [(k, v)]) k' = (if k' = k then Some v else map_of ps k')"
  by (induction ps) auto

lemma map_of_obj_set:
  "map_of (obj_set k v ps) k' =
     (if k' = k \<and> (k \<in> fst ` set ps \<or> k \<noteq> ''__proto__'') then Some v else map_of ps k')"
  by (simp add: obj_set_def update_conv' map_of_insert_index map_of_append_new
      del: map_of_append)

lemma toObject_loop_other:
  "k \<notin> name ` set fs \<Longrightarrow> map_of (toObject_loop fs n p acc) k = map_of acc k"
  by (induction fs arbitrary: p acc) (auto simp: map_of_obj_set)

lemma toObject_loop_field:
  "name f \<notin> name ` set post \<Longrightarrow> name f \<noteq> ''__proto__'' \<Longrightarrow>
   map_of (toObject_loop (pre @ f # post) n p acc) (name f) =
     Some (typed_value (dataType f) (field_value n (p + sum_list (map bits pre)) (bits f)))"
proof (induction pre arbitrary: p acc)
  case Nil
  then show ?case by (simp add: toObject_loop_other map_of_obj_set)
next
  case (Cons g pre)
  then show ?case by (simp add: add.assoc)
qed

lemma sum_bits_take_nth:
  "i < length fs \<Longrightarrow>
   sum_list (map bits (take i fs)) + bits (fs ! i) \<le> sum_list (map bits fs)"
proof -
  assume "i < length fs"
  then have "fs = take i fs @ fs ! i # drop (Suc i) fs" by (rule id_take_nth_drop)
  then have "sum_list (map bits fs) =
      sum_list (map bits (take i fs)) + bits (fs ! i) + sum_list (map bits (drop (Suc i) fs))"
    by (metis (no_types, lifting) add.assoc list.simps(9) map_append sum_list.Cons sum_list.append)
  then show ?thesis by simp
qed

lemma field_value_of_int:
  assumes "p + b \<le> 32"
  shows "field_value (Fin (of_int v)) p b = word_of_int ((v div 2 ^ p) mod 2 ^ b)"
proof (rule bit_word_eqI)
  fix k assume "k < LENGTH(32)"
  have "bit (word_of_int ((v div 2 ^ p) mod 2 ^ b) :: 32 word) k \<longleftrightarrow>
        k < 32 \<and> k < b \<and> bit v (p + k)"
    by (simp add: bit_word_of_int_iff flip: take_bit_eq_mod drop_bit_eq_div)
       (auto simp: bit_take_bit_iff bit_drop_bit_eq)
  moreover have "bit (field_value (Fin (of_int v)) p b) k \<longleftrightarrow>
        k < b \<and> p + k < 32 \<and> bit v (p + k)"
    using assms by (auto simp: bit_field_value ToInt32_of_int bit_word_of_int_iff)
  ultimately show "bit (field_value (Fin (of_int v)) p b) k \<longleftrightarrow>
        bit (word_of_int ((v div 2 ^ p) mod 2 ^ b) :: 32 word) k"
    using assms \<open>k < LENGTH(32)\<close> by auto
qed

lemma sint_word_of_int_small:
  assumes "0 \<le> y" "y < 2 ^ 31"
  shows "sint (word_of_int y :: 32 word) = y"
proof -
  have "- (2 ^ 31) \<le> y" using assms(1) by simp
  then have "signed_take_bit 31 y = y"
    using assms(2) by (rule signed_take_bit_int_eq_self)
  then show ?thesis by (simp add: sint_sbintrunc')
qed

lemma sint_field_value:
  assumes "p + b \<le> 32" "b < 32"
  shows "sint (field_value (Fin (of_int v)) p b) = (v div 2 ^ p) mod 2 ^ b"
proof -
  let ?y = "(v div 2 ^ p) mod 2 ^ b"
  have nonneg: "0 \<le> ?y" by simp
  have "?y < 2 ^ b" by simp
  also have "(2 :: int) ^ b \<le> 2 ^ 31" using assms(2) by (intro power_increasing) simp_all
  finally have "?y < 2 ^ 31" .
  with nonneg have "sint (word_of_int ?y :: 32 word) = ?y"
    by (rule sint_word_of_int_small)
  then show ?thesis by (simp only: field_value_of_int [OF assms(1)])
qed

lemma toObject_in_range:
  "- 2147483648 \<le> v \<Longrightarrow> v \<le> 4294967295 \<Longrightarrow>
   toObject this (JNum (Fin (of_int v))) = Inr (toObject_loop (bitMap this) (Fin (of_int v)) 0 [])"
  by (simp add: toObject_def)

lemma typed_value_extracted:
  assumes sv: "sint fv = y mod 2 ^ w" and bool: "t = Boolean_ctor \<Longrightarrow> w = 1"
  shows "typed_value t fv =
     (if t = Boolean_ctor then PBool (y mod 2 ^ w = 1) else PNum (Fin (of_int (y mod 2 ^ w))))"
proof (cases "t = Boolean_ctor")
  case True
  then have "w = 1" by (rule bool)
  have "fv \<noteq> 0 \<longleftrightarrow> sint fv \<noteq> 0" by (simp add: signed_eq_0_iff)
  also have "\<dots> \<longleftrightarrow> y mod 2 ^ w = 1" unfolding sv \<open>w = 1\<close> by simp
  finally show ?thesis using True by (simp add: typed_value_def)
next
  case False
  have "Int32_number fv = Fin (of_int (y mod 2 ^ w))"
    unfolding Int32_number_def sv ..
  then show ?thesis using False by (simp add: typed_value_def)
qed

text \<open>
  C7, as stated, fails for a field of width 32: the mask \<open>2 ** 32 - 1\<close> is \<open>-1\<close> as an
  Int32, so the field is the signed reading of the input. On the one-field schema of
  width 32, the input \<open>4294967295\<close> is stored as \<open>-1\<close>, while the unsigned value of
  \<open>(4294967295 >> 0)\<close> masked with \<open>2^32 - 1\<close> is \<open>4294967295\<close>.
\<close>

theorem C7_width_32_counterexample:
  "ConfigBits_new [JBitMap \<lparr>name = ''a'', bits = 32, dataType = Number_ctor\<rparr>] =
     Inr \<lparr>bitMap = [\<lparr>name = ''a'', bits = 32, dataType = Number_ctor\<rparr>]\<rparr> \<and>
   toObject \<lparr>bitMap = [\<lparr>name = ''a'', bits = 32, dataType = Number_ctor\<rparr>]\<rparr>
     (JNum (Fin 4294967295)) = Inr [(''a'', PNum (Fin (- 1)))] \<and>
   (4294967295 div 2 ^ 0) mod 2 ^ 32 = (4294967295 :: int)"
  by (simp add: ConfigBits_new_def toObject_def field_value_def ToInt32_def trunc_def
      pow2_minus_1_def typed_value_def Int32_number_def obj_set_def is_array_index_def
      is_digit_def)

text \<open>
  C7, amended: let the schema satisfy the constructors' invariant, and take a field at
  index \<open>i\<close> of width less than 32 whose name is not \<open>__proto__\<close> and is not used again
  by a later field (so that its entry is the one found in the result). For every integer
  input \<open>v\<close> in \<open>[-2^31, 2^32 - 1]\<close>, \<open>toObject\<close> stores under the field's name the value
  \<open>(v div 2^offset) mod 2^width\<close>, where \<open>offset\<close> is the sum of the widths of the fields
  before it (0 for the first field): as a number for the Number kind, and as the boolean
  "the value is 1" for the Boolean kind.
\<close>

theorem C7_field_extraction:
  assumes inv: "ConfigBits_invariant this"
      and i: "i < length (bitMap this)"
      and last: "name (bitMap this ! i) \<notin> name ` set (drop (Suc i) (bitMap this))"
      and proto: "name (bitMap this ! i) \<noteq> ''__proto__''"
      and range: "- 2147483648 \<le> v" "v \<le> 4294967295"
      and w: "bits (bitMap this ! i) < 32"
  shows "offset this 0 = 0 \<and>
         (\<exists>obj. toObject this (JNum (Fin (of_int v))) = Inr obj \<and>
            map_of obj (name (bitMap this ! i)) = Some
              (if dataType (bitMap this ! i) = Boolean_ctor
               then PBool ((v div 2 ^ offset this i) mod 2 ^ bits (bitMap this ! i) = 1)
               else PNum (Fin (of_int ((v div 2 ^ offset this i) mod 2 ^ bits (bitMap this ! i))))))"
proof
  show "offset this 0 = 0" by (simp add: offset_def)
next
  let ?fs = "bitMap this"
  let ?f = "?fs ! i"
  let ?n = "Fin (of_int v)"
  have split: "?fs = take i ?fs @ ?f # drop (Suc i) ?fs"
    using i by (rule id_take_nth_drop)
  have "offset this i + bits ?f \<le> sum_list (map bits ?fs)"
    unfolding offset_def using i by (rule sum_bits_take_nth)
  with inv have pw: "offset this i + bits ?f \<le> 32"
    by (simp add: ConfigBits_invariant_def)
  have "BitMap_invariant ?f"
    using inv i by (simp add: ConfigBits_invariant_def list_all_length)
  then have bool: "dataType ?f = Boolean_ctor \<Longrightarrow> bits ?f = 1"
    by (simp add: BitMap_invariant_def)
  have "map_of (toObject_loop (take i ?fs @ ?f # drop (Suc i) ?fs) ?n 0 []) (name ?f) =
        Some (typed_value (dataType ?f)
               (field_value ?n (0 + sum_list (map bits (take i ?fs))) (bits ?f)))"
    using last proto by (rule toObject_loop_field)
  then have lk: "map_of (toObject_loop ?fs ?n 0 []) (name ?f) =
        Some (typed_value (dataType ?f) (field_value ?n (offset this i) (bits ?f)))"
    using split by (simp add: offset_def)
  have "sint (field_value ?n (offset this i) (bits ?f)) =
        (v div 2 ^ offset this i) mod 2 ^ bits ?f"
    using pw w by (rule sint_field_value)
  then have "typed_value (dataType ?f) (field_value ?n (offset this i) (bits ?f)) =
     (if dataType ?f = Boolean_ctor
      then PBool ((v div 2 ^ offset this i) mod 2 ^ bits ?f = 1)
      else PNum (Fin (of_int ((v div 2 ^ offset this i) mod 2 ^ bits ?f))))"
    using bool by (rule typed_value_extracted)
  with lk toObject_in_range [OF range, of this]
  show "\<exists>obj. toObject this (JNum ?n) = Inr obj \<and>
            map_of obj (name ?f) = Some
              (if dataType ?f = Boolean_ctor
               then PBool ((v div 2 ^ offset this i) mod 2 ^ bits ?f = 1)
               else PNum (Fin (of_int ((v div 2 ^ offset this i) mod 2 ^ bits ?f))))"
    by simp
qed

theorem C7_field_extraction_witness:
  "offset MY_SETTINGS 0 = 0 \<and>
   (\<exists>obj. toObject MY_SETTINGS (JNum (Fin 13)) = Inr obj \<and>
      map_of obj ''indent_size'' = Some (PNum (Fin 3)))"
proof -
  have inv: "ConfigBits_invariant MY_SETTINGS"
    by (simp add: ConfigBits_invariant_def BitMap_invariant_def MY_SETTINGS_def AUTO_SAVE_def
        INDENT_TYPE_def INDENT_SIZE_def)
  have i: "2 < length (bitMap MY_SETTINGS)"
    by (simp add: MY_SETTINGS_def)
  have nth: "bitMap MY_SETTINGS ! 2 = INDENT_SIZE"
    by (simp add: MY_SETTINGS_def)
  have last: "name (bitMap MY_SETTINGS ! 2) \<notin> name ` set (drop (Suc 2) (bitMap MY_SETTINGS))"
    by (simp add: MY_SETTINGS_def)
  have proto: "name (bitMap MY_SETTINGS ! 2) \<noteq> ''__proto__''"
    by (simp add: nth INDENT_SIZE_def)
  have w: "bits (bitMap MY_SETTINGS ! 2) < 32"
    by (simp add: nth INDENT_SIZE_def)
  have off: "offset MY_SETTINGS 2 = 2"
    by (simp add: offset_def MY_SETTINGS_def AUTO_SAVE_def INDENT_TYPE_def numeral_2_eq_2)
  show ?thesis
    using C7_field_extraction [OF inv i last proto _ _ w, of 13]
    by (simp add: nth off INDENT_SIZE_def)
qed

section \<open>The constructors establish the invariants\<close>

lemma ToUint16_less: "ToUint16 n < 65536"
  by (cases n) (simp_all add: ToUint16_def nat_less_iff)

lemma BitMap_new_invariant:
  assumes "BitMap_new nameArg bitsArg dataTypeArg = Inr bm"
  shows "BitMap_invariant bm"
proof -
  from assms obtain s b where args: "nameArg = JStr s" "bitsArg = JNum b"
    by (cases nameArg; cases bitsArg) (auto simp: BitMap_new_def Let_def split: if_splits)
  from assms show ?thesis
    unfolding args BitMap_new_string_number
    by (auto simp: BitMap_invariant_def ToUint16_less ToUint16_examples split: if_splits)
qed

lemma ConfigBits_loop_result:
  "ConfigBits_loop args totalBits acc = Inr bs \<Longrightarrow> totalBits \<le> 32 \<Longrightarrow>
   \<exists>new. args = map JBitMap new \<and> bs = acc @ new \<and> totalBits + sum_list (map bits new) \<le> 32"
proof (induction args arbitrary: totalBits acc)
  case Nil
  then show ?case by simp
next
  case (Cons x args)
  from Cons.prems obtain b where x: "x = JBitMap b"
    by (cases x) (auto split: if_splits)
  from Cons.prems have fit: "totalBits + bits b \<le> 32"
    and rest: "ConfigBits_loop args (totalBits + bits b) (acc @ [b]) = Inr bs"
    unfolding x by (simp_all split: if_splits)
  from Cons.IH [OF rest fit] obtain new where
    "args = map JBitMap new" "bs = (acc @ [b]) @ new"
    "totalBits + bits b + sum_list (map bits new) \<le> 32"
    by blast
  then have "x # args = map JBitMap (b # new) \<and> bs = acc @ b # new \<and>
             totalBits + sum_list (map bits (b # new)) \<le> 32"
    using x by simp
  then show ?case by (intro exI [of _ "b # new"])
qed

lemma ConfigBits_new_invariant:
  assumes "ConfigBits_new (map JBitMap bs) = Inr this" and "list_all BitMap_invariant bs"
  shows "ConfigBits_invariant this \<and> bitMap this = bs"
proof -
  from assms(1) have ne: "bs \<noteq> []"
    and "\<exists>r. ConfigBits_loop (map JBitMap bs) 0 [] = Inr r \<and> this = \<lparr>bitMap = r\<rparr>"
    by (auto simp: ConfigBits_new_def split: if_splits sum.splits)
  then obtain r where r: "ConfigBits_loop (map JBitMap bs) 0 [] = Inr r" "this = \<lparr>bitMap = r\<rparr>"
    by blast
  from ConfigBits_loop_result [OF r(1)] obtain new where
    new: "map JBitMap bs = map JBitMap new" "r = new" "sum_list (map bits new) \<le> 32"
    by auto
  have "inj JBitMap" by (simp add: inj_def)
  with new(1) have "bs = new" by (simp add: inj_map_eq_map)
  with new r(2) ne assms(2) show ?thesis
    by (simp add: ConfigBits_invariant_def)
qed


section \<open>Round trip\<close>

lemma field_value_beyond: "field_value n 32 0 = 0"
  by (rule bit_word_eqI) (simp add: bit_field_value)

lemma bit_push_field_value:
  assumes "p + b \<le> 32"
  shows "bit (push_bit (p mod 32) (field_value n p b)) k \<longleftrightarrow>
         p \<le> k \<and> k < p + b \<and> bit (ToInt32 n) k"
proof (cases "p = 32")
  case True
  with assms have "b = 0" by simp
  with True show ?thesis by (simp add: field_value_beyond)
next
  case False
  with assms have "p < 32" by simp
  then show ?thesis using assms
    by (auto simp: bit_push_bit_iff bit_field_value dest: bit_imp_le_length)
qed

lemma one_bit_word:
  fixes w :: "32 word"
  assumes "\<And>k. bit w k \<Longrightarrow> k = 0"
  shows "w = 0 \<or> w = 1"
proof (cases "bit w 0")
  case True
  have "w = 1"
  proof (rule bit_word_eqI)
    fix k assume "k < LENGTH(32)"
    show "bit w k \<longleftrightarrow> bit (1 :: 32 word) k"
      using assms [of k] True by (auto simp: bit_1_iff)
  qed
  then show ?thesis ..
next
  case False
  have "w = 0"
  proof (rule bit_word_eqI)
    fix k assume "k < LENGTH(32)"
    show "bit w k \<longleftrightarrow> bit (0 :: 32 word) k"
      using assms [of k] False by auto
  qed
  then show ?thesis ..
qed

lemma field_value_one_bit: "p + 1 \<le> 32 \<Longrightarrow> field_value n p 1 = 0 \<or> field_value n p 1 = 1"
  by (rule one_bit_word) (simp add: bit_field_value)

lemma fromObject_loop_round_trip:
  assumes "distinct (map name (pre @ post))"
      and "''__proto__'' \<notin> name ` set (pre @ post)"
      and "list_all BitMap_invariant post"
      and "sum_list (map bits pre) + sum_list (map bits post) \<le> 32"
      and "obj = toObject_loop (pre @ post) n 0 []"
  shows "bit (fromObject_loop post obj (sum_list (map bits pre)) acc) k \<longleftrightarrow>
         bit acc k \<or>
         (sum_list (map bits pre) \<le> k \<and>
          k < sum_list (map bits pre) + sum_list (map bits post) \<and> bit (ToInt32 n) k)"
  using assms
proof (induction post arbitrary: pre acc)
  case Nil
  then show ?case by auto
next
  case (Cons f post)
  let ?p = "sum_list (map bits pre)"
  let ?fv = "field_value n ?p (bits f)"
  have pw: "?p + bits f \<le> 32" using Cons.prems(4) by simp
  have "name f \<notin> name ` set post" and "name f \<noteq> ''__proto__''"
    using Cons.prems(1,2) by auto
  then have "map_of (toObject_loop (pre @ f # post) n 0 []) (name f) =
      Some (typed_value (dataType f) (field_value n (0 + ?p) (bits f)))"
    by (rule toObject_loop_field)
  then have get: "obj_get obj (name f) = Own (typed_value (dataType f) ?fv)"
    using Cons.prems(5) by (simp add: obj_get_def)
  have "BitMap_invariant f" using Cons.prems(3) by simp
  then have "dataType f = Boolean_ctor \<Longrightarrow> ?fv = 0 \<or> ?fv = 1"
    using pw field_value_one_bit [of ?p n] by (simp add: BitMap_invariant_def)
  then have rd: "ToInt32 (ToNumber (or_zero (obj_get obj (name f)))) = ?fv"
    unfolding get by (rule typed_value_back)
  have step: "fromObject_loop (f # post) obj ?p acc =
      fromObject_loop post obj (sum_list (map bits (pre @ [f])))
        (acc OR push_bit (?p mod 32) ?fv)"
    by (simp add: Let_def rd)
  have "bit (fromObject_loop post obj (sum_list (map bits (pre @ [f])))
              (acc OR push_bit (?p mod 32) ?fv)) k \<longleftrightarrow>
        bit (acc OR push_bit (?p mod 32) ?fv) k \<or>
        (sum_list (map bits (pre @ [f])) \<le> k \<and>
         k < sum_list (map bits (pre @ [f])) + sum_list (map bits post) \<and> bit (ToInt32 n) k)"
    using Cons.prems by (intro Cons.IH) simp_all
  then show ?case
    unfolding step using bit_push_field_value [OF pw, of n k]
    by (auto simp: bit_or_iff)
qed

lemma bit_int_below:
  fixes v :: int
  assumes "0 \<le> v" "v < 2 ^ m" "bit v k"
  shows "k < m"
proof -
  have "take_bit m v = v" using assms(1,2) by (simp add: take_bit_int_eq_self)
  then have "bit (take_bit m v) k" using assms(3) by simp
  then show ?thesis by (simp add: bit_take_bit_iff)
qed

lemma round_trip_fails_on_bit_31:
  "ConfigBits_new [JBitMap \<lparr>name = ''a'', bits = 32, dataType = Number_ctor\<rparr>] =
     Inr \<lparr>bitMap = [\<lparr>name = ''a'', bits = 32, dataType = Number_ctor\<rparr>]\<rparr> \<and>
   toObject \<lparr>bitMap = [\<lparr>name = ''a'', bits = 32, dataType = Number_ctor\<rparr>]\<rparr>
     (JNum (Fin 2147483648)) = Inr [(''a'', PNum (Fin (- 2147483648)))] \<and>
   fromObject \<lparr>bitMap = [\<lparr>name = ''a'', bits = 32, dataType = Number_ctor\<rparr>]\<rparr>
     (JObject [(''a'', PNum (Fin (- 2147483648)))]) = Inr (Fin (- 2147483648))"
  by (simp add: ConfigBits_new_def toObject_def field_value_def ToInt32_def trunc_def
      pow2_minus_1_def typed_value_def Int32_number_def obj_set_def is_array_index_def
      is_digit_def fromObject_JObject obj_get_def or_zero_def)


lemma round_trip_fails_on_names:
  "toObject \<lparr>bitMap = [\<lparr>name = ''a'', bits = 1, dataType = Number_ctor\<rparr>,
                       \<lparr>name = ''a'', bits = 1, dataType = Number_ctor\<rparr>]\<rparr>
     (JNum (Fin 1)) = Inr [(''a'', PNum (Fin 0))] \<and>
   fromObject \<lparr>bitMap = [\<lparr>name = ''a'', bits = 1, dataType = Number_ctor\<rparr>,
                         \<lparr>name = ''a'', bits = 1, dataType = Number_ctor\<rparr>]\<rparr>
     (JObject [(''a'', PNum (Fin 0))]) = Inr (Fin 0) \<and>
   toObject \<lparr>bitMap = [\<lparr>name = ''constructor'', bits = 1, dataType = Number_ctor\<rparr>]\<rparr>
     (JNum (Fin 1)) = Inr [(''constructor'', PNum (Fin 1))] \<and>
   fromObject \<lparr>bitMap = [\<lparr>name = ''constructor'', bits = 1, dataType = Number_ctor\<rparr>]\<rparr>
     (JObject [(''constructor'', PNum (Fin 1))]) = Inl TypeError \<and>
   toObject \<lparr>bitMap = [\<lparr>name = ''__proto__'', bits = 1, dataType = Number_ctor\<rparr>]\<rparr>
     (JNum (Fin 1)) = Inr [] \<and>
   fromObject \<lparr>bitMap = [\<lparr>name = ''__proto__'', bits = 1, dataType = Number_ctor\<rparr>]\<rparr>
     (JObject []) = Inr (Fin 0)"
  by code_simp


text \<open>
  C1, as stated, fails. On the one-field schema of width 32 the input \<open>2^31\<close> decodes to
  \<open>a = -2^31\<close> and encodes to \<open>-2^31\<close>. With two fields of the same name the later
  write wins and bit 0 of the input 1 is lost. A field named \<open>constructor\<close> makes the
  decoded object fail the constructor check of \<open>fromObject\<close>, and a field named
  \<open>__proto__\<close> is never stored in the decoded object.
\<close>

theorem C1_round_trip_counterexample:
  "(ConfigBits_new [JBitMap \<lparr>name = ''a'', bits = 32, dataType = Number_ctor\<rparr>] =
     Inr \<lparr>bitMap = [\<lparr>name = ''a'', bits = 32, dataType = Number_ctor\<rparr>]\<rparr> \<and>
   toObject \<lparr>bitMap = [\<lparr>name = ''a'', bits = 32, dataType = Number_ctor\<rparr>]\<rparr>
     (JNum (Fin 2147483648)) = Inr [(''a'', PNum (Fin (- 2147483648)))] \<and>
   fromObject \<lparr>bitMap = [\<lparr>name = ''a'', bits = 32, dataType = Number_ctor\<rparr>]\<rparr>
     (JObject [(''a'', PNum (Fin (- 2147483648)))]) = Inr (Fin (- 2147483648))) \<and>
   (toObject \<lparr>bitMap = [\<lparr>name = ''a'', bits = 1, dataType = Number_ctor\<rparr>,
                       \<lparr>name = ''a'', bits = 1, dataType = Number_ctor\<rparr>]\<rparr>
     (JNum (Fin 1)) = Inr [(''a'', PNum (Fin 0))] \<and>
   fromObject \<lparr>bitMap = [\<lparr>name = ''a'', bits = 1, dataType = Number_ctor\<rparr>,
                         \<lparr>name = ''a'', bits = 1, dataType = Number_ctor\<rparr>]\<rparr>
     (JObject [(''a'', PNum (Fin 0))]) = Inr (Fin 0) \<and>
   toObject \<lparr>bitMap = [\<lparr>name = ''constructor'', bits = 1, dataType = Number_ctor\<rparr>]\<rparr>
     (JNum (Fin 1)) = Inr [(''constructor'', PNum (Fin 1))] \<and>
   fromObject \<lparr>bitMap = [\<lparr>name = ''constructor'', bits = 1, dataType = Number_ctor\<rparr>]\<rparr>
     (JObject [(''constructor'', PNum (Fin 1))]) = Inl TypeError \<and>
   toObject \<lparr>bitMap = [\<lparr>name = ''__proto__'', bits = 1, dataType = Number_ctor\<rparr>]\<rparr>
     (JNum (Fin 1)) = Inr [] \<and>
   fromObject \<lparr>bitMap = [\<lparr>name = ''__proto__'', bits = 1, dataType = Number_ctor\<rparr>]\<rparr>
     (JObject []) = Inr (Fin 0))"
  by (rule conjI [OF round_trip_fails_on_bit_31 round_trip_fails_on_names])

text \<open>
  C1, amended: for every schema that satisfies the constructors' invariant and whose
  field names are pairwise distinct and are neither \<open>constructor\<close> nor \<open>__proto__\<close>,
  and for every integer \<open>v\<close> with \<open>0 \<le> v < 2^w\<close> (\<open>w\<close> the total width) and
  \<open>v < 2^31\<close>, \<open>toObject\<close> succeeds on \<open>v\<close> and \<open>fromObject\<close> of its result returns
  \<open>v\<close>.
\<close>

theorem C1_round_trip:
  assumes inv: "ConfigBits_invariant this"
      and names: "distinct (map name (bitMap this))"
      and ctor: "''constructor'' \<notin> name ` set (bitMap this)"
      and proto: "''__proto__'' \<notin> name ` set (bitMap this)"
      and v: "0 \<le> v" "v < 2 ^ sum_list (map bits (bitMap this))" "v < 2 ^ 31"
  shows "\<exists>obj. toObject this (JNum (Fin (of_int v))) = Inr obj \<and>
               fromObject this (JObject obj) = Inr (Fin (of_int v))"
proof -
  let ?fs = "bitMap this"
  let ?n = "Fin (of_int v)"
  let ?obj = "toObject_loop ?fs ?n 0 []"
  have dec: "toObject this (JNum ?n) = Inr ?obj"
    using v(1,3) by (intro toObject_in_range) simp_all
  have "map_of ?obj ''constructor'' = None"
    using ctor by (simp add: toObject_loop_other)
  then have enc: "fromObject this (JObject ?obj) = Inr (Int32_number (fromObject_loop ?fs ?obj 0 0))"
    by (simp add: fromObject_JObject)
  have bits: "bit (fromObject_loop ?fs ?obj 0 0) k \<longleftrightarrow>
        k < sum_list (map bits ?fs) \<and> bit (ToInt32 ?n) k" for k
    using fromObject_loop_round_trip [of "[]" ?fs ?obj ?n 0 k] inv names proto
    by (simp add: ConfigBits_invariant_def)
  have "fromObject_loop ?fs ?obj 0 0 = word_of_int v"
  proof (rule bit_word_eqI)
    fix k assume "k < LENGTH(32)"
    show "bit (fromObject_loop ?fs ?obj 0 0) k \<longleftrightarrow> bit (word_of_int v :: 32 word) k"
      using bit_int_below [OF v(1,2), of k]
      by (auto simp: bits ToInt32_of_int bit_word_of_int_iff)
  qed
  moreover have "Int32_number (word_of_int v) = Fin (of_int v)"
    unfolding Int32_number_def using sint_word_of_int_small [OF v(1,3)] by (simp only:)
  ultimately show ?thesis using dec enc by simp
qed

theorem C1_round_trip_witness:
  "\<exists>obj. toObject MY_SETTINGS (JNum (Fin 13)) = Inr obj \<and>
         fromObject MY_SETTINGS (JObject obj) = Inr (Fin 13)"
proof -
  have inv: "ConfigBits_invariant MY_SETTINGS"
    by (simp add: ConfigBits_invariant_def BitMap_invariant_def MY_SETTINGS_def AUTO_SAVE_def
        INDENT_TYPE_def INDENT_SIZE_def)
  have names: "distinct (map name (bitMap MY_SETTINGS))"
    and ctor: "''constructor'' \<notin> name ` set (bitMap MY_SETTINGS)"
    and proto: "''__proto__'' \<notin> name ` set (bitMap MY_SETTINGS)"
    and total: "sum_list (map bits (bitMap MY_SETTINGS)) = 4"
    by (simp_all add: MY_SETTINGS_def AUTO_SAVE_def INDENT_TYPE_def INDENT_SIZE_def)
  show ?thesis
    using C1_round_trip [OF inv names ctor proto, of 13] by (simp add: total)
qed


section \<open>The sign of an encoding\<close>

lemma within_width_bits:
  assumes "within_width l w" and "bit (ToInt32 (ToNumber (or_zero l))) j"
  shows "j < w"
proof (cases l)
  case (Own pv)
  show ?thesis
  proof (cases pv)
    case (PBool b)
    with Own assms show ?thesis
      by (cases b; cases "w = 0")
         (auto simp: or_zero_def ToInt32_def trunc_def bit_1_iff)
  next
    case (PNum x)
    show ?thesis
    proof (cases x)
      case (Fin r)
      with Own PNum assms(1) have r: "r = of_int \<lfloor>r\<rfloor>" "0 \<le> \<lfloor>r\<rfloor>" "\<lfloor>r\<rfloor> < 2 ^ w"
        by (simp_all add: floor_less_iff)
      have "ToInt32 (ToNumber (or_zero l)) = word_of_int \<lfloor>r\<rfloor>"
      proof (cases "r = 0")
        case True
        with Own PNum Fin show ?thesis by (simp add: or_zero_def ToInt32_zero)
      next
        case False
        with Own PNum Fin have "ToInt32 (ToNumber (or_zero l)) = ToInt32 (Fin r)"
          by (simp add: or_zero_def)
        also have "\<dots> = ToInt32 (Fin (of_int \<lfloor>r\<rfloor>))" using r(1) by simp
        finally show ?thesis by (simp only: ToInt32_of_int)
      qed
      with assms(2) have "bit \<lfloor>r\<rfloor> j" by (simp add: bit_word_of_int_iff)
      with r(2,3) show ?thesis by (rule bit_int_below)
    qed (use Own PNum assms in simp_all)
  qed
next
  case (Inherited k)
  with assms(2) show ?thesis by (simp add: or_zero_def ToInt32_NaN)
next
  case Missing
  with assms(2) show ?thesis by (simp add: or_zero_def ToInt32_zero)
qed

lemma fromObject_loop_high_bits_clear:
  assumes "p + sum_list (map bits fs) \<le> 31"
      and "list_all (\<lambda>f. within_width (obj_get ps (name f)) (bits f)) fs"
      and "\<And>k. bit acc k \<Longrightarrow> k < p"
      and "bit (fromObject_loop fs ps p acc) k"
  shows "k < p + sum_list (map bits fs)"
  using assms
proof (induction fs arbitrary: p acc)
  case Nil
  then show ?case by simp
next
  case (Cons f fs)
  let ?c = "push_bit (p mod 32) (ToInt32 (ToNumber (or_zero (obj_get ps (name f)))))"
  have p: "p mod 32 = p" using Cons.prems(1) by simp
  have acc': "j < p + bits f" if "bit (acc OR ?c) j" for j
  proof (cases "bit acc j")
    case True
    then show ?thesis using Cons.prems(3) [of j] by simp
  next
    case False
    with that have "bit ?c j" by (simp add: bit_or_iff)
    then have "p \<le> j" and "bit (ToInt32 (ToNumber (or_zero (obj_get ps (name f))))) (j - p)"
      by (simp_all add: bit_push_bit_iff p)
    moreover have "within_width (obj_get ps (name f)) (bits f)" using Cons.prems(2) by simp
    ultimately have "j - p < bits f" using within_width_bits by blast
    with \<open>p \<le> j\<close> show ?thesis by simp
  qed
  have "k < (p + bits f) + sum_list (map bits fs)"
  proof (rule Cons.IH)
    show "p + bits f + sum_list (map bits fs) \<le> 31" using Cons.prems(1) by simp
    show "list_all (\<lambda>f. within_width (obj_get ps (name f)) (bits f)) fs"
      using Cons.prems(2) by simp
    show "\<And>k. bit (acc OR ?c) k \<Longrightarrow> k < p + bits f" by (rule acc')
    show "bit (fromObject_loop fs ps (p + bits f) (acc OR ?c)) k"
      using Cons.prems(4) by (simp add: Let_def)
  qed
  then show ?case by simp
qed

text \<open>
  C4, as stated, fails when bit 31 is set: on the one-field schema of width 32 the value
  \<open>2^31\<close> fits the field and encodes to \<open>-2^31\<close>; on a schema of 31 bits followed by a
  Boolean bit, \<open>{flag: true}\<close> encodes to \<open>-2^31\<close> as well.
\<close>

theorem C4_negative_result_counterexample:
  "within_width (Own (PNum (Fin 2147483648))) 32 \<and>
   fromObject \<lparr>bitMap = [\<lparr>name = ''a'', bits = 32, dataType = Number_ctor\<rparr>]\<rparr>
     (JObject [(''a'', PNum (Fin 2147483648))]) = Inr (Fin (- 2147483648)) \<and>
   within_width (Own (PBool True)) 1 \<and>
   fromObject \<lparr>bitMap = [\<lparr>name = ''pad'', bits = 31, dataType = Number_ctor\<rparr>,
                         \<lparr>name = ''flag'', bits = 1, dataType = Boolean_ctor\<rparr>]\<rparr>
     (JObject [(''flag'', PBool True)]) = Inr (Fin (- 2147483648))"
  by (simp add: fromObject_JObject obj_get_def or_zero_def ToInt32_def trunc_def
      Int32_number_def Object_prototype_keys_def)

text \<open>
  C4, amended: for every schema of total width at most 31 and every plain object without
  an own property \<open>constructor\<close>, in which each field of the schema is absent or holds a
  boolean or a non-negative integer that fits the field's width, \<open>fromObject\<close> returns a
  non-negative integer.
\<close>

theorem C4_fromObject_non_negative:
  assumes total: "sum_list (map bits (bitMap this)) \<le> 31"
      and vals: "list_all (\<lambda>f. within_width (obj_get ps (name f)) (bits f)) (bitMap this)"
      and ctor: "map_of ps ''constructor'' = None"
  shows "\<exists>r. 0 \<le> r \<and> fromObject this (JObject ps) = Inr (Fin (of_int r))"
proof -
  let ?w = "fromObject_loop (bitMap this) ps 0 0"
  have "\<not> bit ?w 31"
  proof
    assume "bit ?w 31"
    with total vals have "31 < 0 + sum_list (map bits (bitMap this))"
      by (intro fromObject_loop_high_bits_clear [where acc = 0 and ps = ps]) simp_all
    with total show False by simp
  qed
  then have "0 \<le> sint ?w" using bit_last_iff [of ?w] by simp
  moreover have "fromObject this (JObject ps) = Inr (Fin (of_int (sint ?w)))"
    using ctor by (simp add: fromObject_JObject Int32_number_def)
  ultimately show ?thesis by blast
qed

theorem C4_fromObject_non_negative_witness:
  "\<exists>r. 0 \<le> r \<and>
     fromObject MY_SETTINGS
       (JObject [(''auto_save'', PBool True), (''indent_type'', PNum (Fin 0)),
                 (''indent_size'', PNum (Fin 3))]) = Inr (Fin (of_int r))"
proof -
  have total: "sum_list (map bits (bitMap MY_SETTINGS)) \<le> 31"
    by (simp add: MY_SETTINGS_def AUTO_SAVE_def INDENT_TYPE_def INDENT_SIZE_def)
  have vals: "list_all (\<lambda>f. within_width
      (obj_get [(''auto_save'', PBool True), (''indent_type'', PNum (Fin 0)),
                (''indent_size'', PNum (Fin 3))] (name f)) (bits f)) (bitMap MY_SETTINGS)"
    by (simp add: MY_SETTINGS_def AUTO_SAVE_def INDENT_TYPE_def INDENT_SIZE_def obj_get_def)
  show ?thesis
    by (rule C4_fromObject_non_negative [OF total vals]) simp
qed

end
